theory Spec2Isabelle
  imports Complex_Main "HOL-Library.Multiset"
begin

section \<open>The Date runtime used by the ledger page\<close>

text \<open>
  The page works on JavaScript \<open>Date\<close> objects and reads them only through the local-time
  accessors \<open>getFullYear\<close>, \<open>getMonth\<close>, \<open>getDate\<close> and \<open>getDay\<close>. A date is modelled
  by its local time value: the number of milliseconds since local midnight of
  1 January 1970, an unbounded integer. The functions below are the day-number
  functions of the language standard (Day, DayFromYear, YearFromTime, MonthFromTime,
  DateFromTime, WeekDay, MakeDay), taken on whole days. Local time is taken at a fixed
  offset from UTC, so the local calendar fields are functions of the local time value;
  clock changes, invalid dates and the upper and lower limit of the time value are
  outside the model. What is stated about a date the page builds is stated about its
  calendar day, not about its time of day.
\<close>

type_synonym date = int

definition msPerDay :: int where
  "msPerDay = 86400000"

definition Day :: "date \<Rightarrow> int" where
  "Day t = t div msPerDay"

definition TimeWithinDay :: "date \<Rightarrow> int" where
  "TimeWithinDay t = t mod msPerDay"

definition DaysInYear :: "int \<Rightarrow> int" where
  "DaysInYear y =
     (if y mod 4 \<noteq> 0 then 365
      else if y mod 100 \<noteq> 0 then 366
      else if y mod 400 \<noteq> 0 then 365
      else 366)"

definition DayFromYear :: "int \<Rightarrow> int" where
  "DayFromYear y =
     365 * (y - 1970) + (y - 1969) div 4 - (y - 1901) div 100 + (y - 1601) div 400"

text \<open>
  The standard defines the year of a day as the largest \<open>y\<close> with
  \<open>DayFromYear y \<le> d\<close>. The executable form estimates the year from the mean length
  of a year (146097 days in 400 years) and corrects the estimate by at most one;
  \<open>YearFromDay_bounds\<close> and \<open>YearFromDay_unique\<close> below show that it is the year
  the standard means.
\<close>

definition YearFromDay :: "int \<Rightarrow> int" where
  "YearFromDay d =
     (let y = 1970 + (400 * d) div 146097
      in if d < DayFromYear y then y - 1
         else if DayFromYear (y + 1) \<le> d then y + 1
         else y)"

definition leapDays :: "int \<Rightarrow> int" where
  "leapDays y = (if DaysInYear y = 366 then 1 else 0)"

text \<open>Day within the year on which month \<open>m\<close> (0 = January) starts; \<open>l\<close> is 1 in a leap year.\<close>

definition monthStart :: "int \<Rightarrow> int \<Rightarrow> int" where
  "monthStart l m =
     (if m = 0 then 0 else if m = 1 then 31 else if m = 2 then 59 + l
      else if m = 3 then 90 + l else if m = 4 then 120 + l
      else if m = 5 then 151 + l else if m = 6 then 181 + l
      else if m = 7 then 212 + l else if m = 8 then 243 + l
      else if m = 9 then 273 + l else if m = 10 then 304 + l
      else 334 + l)"

definition monthLength :: "int \<Rightarrow> int \<Rightarrow> int" where
  "monthLength l m =
     (if m = 1 then 28 + l
      else if m = 3 \<or> m = 5 \<or> m = 8 \<or> m = 10 then 30
      else 31)"

definition DayWithinYear :: "int \<Rightarrow> int" where
  "DayWithinYear d = d - DayFromYear (YearFromDay d)"

definition InLeapYear :: "int \<Rightarrow> int" where
  "InLeapYear d = leapDays (YearFromDay d)"

definition MonthFromDay :: "int \<Rightarrow> int" where
  "MonthFromDay d =
     (let w = DayWithinYear d; l = InLeapYear d
      in if w < 31 then 0 else if w < 59 + l then 1 else if w < 90 + l then 2
         else if w < 120 + l then 3 else if w < 151 + l then 4
         else if w < 181 + l then 5 else if w < 212 + l then 6
         else if w < 243 + l then 7 else if w < 273 + l then 8
         else if w < 304 + l then 9 else if w < 334 + l then 10
         else 11)"

definition DateFromDay :: "int \<Rightarrow> int" where
  "DateFromDay d = DayWithinYear d + 1 - monthStart (InLeapYear d) (MonthFromDay d)"

definition WeekDay :: "int \<Rightarrow> int" where
  "WeekDay d = (d + 4) mod 7"

text \<open>
  \<open>MakeDay\<close> carries months outside 0..11 into the year and lets the day of the month run
  over the end (or before the start) of the month: it is the day number of the 1st of the
  normalised month plus \<open>dt - 1\<close>.
\<close>

definition MakeDay :: "int \<Rightarrow> int \<Rightarrow> int \<Rightarrow> int" where
  "MakeDay year month dt =
     (let ym = year + month div 12; mn = month mod 12
      in DayFromYear ym + monthStart (leapDays ym) mn + dt - 1)"

definition getFullYear :: "date \<Rightarrow> int" where
  "getFullYear t = YearFromDay (Day t)"

definition getMonth :: "date \<Rightarrow> int" where
  "getMonth t = MonthFromDay (Day t)"

definition getDate :: "date \<Rightarrow> int" where
  "getDate t = DateFromDay (Day t)"

definition getDay :: "date \<Rightarrow> int" where
  "getDay t = WeekDay (Day t)"

text \<open>
  \<open>new Date(year, month, day)\<close>: local midnight of the day \<open>MakeDay\<close> gives. The
  constructor reads a year from 0 to 99 as 1900 + year.
\<close>

definition newDate :: "int \<Rightarrow> int \<Rightarrow> int \<Rightarrow> date" where
  "newDate year month day =
     (let yr = (if 0 \<le> year \<and> year \<le> 99 then 1900 + year else year)
      in MakeDay yr month day * msPerDay)"

text \<open>
  \<open>d.setMonth(month)\<close>: the year, the day of the month and the time of day of \<open>d\<close> are
  kept and handed to \<open>MakeDay\<close> with the new month.
\<close>

definition setMonth :: "date \<Rightarrow> int \<Rightarrow> date" where
  "setMonth t month =
     MakeDay (getFullYear t) month (getDate t) * msPerDay + TimeWithinDay t"

section \<open>Calendar functions of the page\<close>

text \<open>
  \<^verbatim>\<open>
  const getPreviousMonth = (date: Date) => {
    const prev = new Date(date);
    prev.setMonth(prev.getMonth() - 1);
    return prev;
  };
  \<close>
\<close>

definition getPreviousMonth :: "date \<Rightarrow> date" where
  "getPreviousMonth date = setMonth date (getMonth date - 1)"

text \<open>
  \<open>getDaysInMonth\<close> fills an array in three loops: the last days of the previous month
  (\<open>i\<close> from \<open>startingDayOfWeek - 1\<close> down to 0), the days of the month (\<open>i\<close> from 1 to
  \<open>daysInMonth\<close>), and the first days of the next month (\<open>i\<close> from 1 to
  \<open>42 - days.length\<close>). Each loop is the map of its body over the range it runs through.
\<close>

definition getDaysInMonth :: "date \<Rightarrow> date list" where
  "getDaysInMonth date =
     (let year = getFullYear date;
          month = getMonth date;
          firstDay = newDate year month 1;
          lastDay = newDate year (month + 1) 0;
          daysInMonth = getDate lastDay;
          startingDayOfWeek = getDay firstDay;
          prevMonth = newDate year month 0;
          prevMonthDays = getDate prevMonth;
          days1 = map (\<lambda>i. newDate year (month - 1) (prevMonthDays - i))
                    (rev [0..startingDayOfWeek - 1]);
          days2 = days1 @ map (\<lambda>i. newDate year month i) [1..daysInMonth];
          remainingDays = 42 - int (length days2)
      in days2 @ map (\<lambda>i. newDate year (month + 1) i) [1..remainingDays])"

text \<open>Two dates name the same calendar day when year, month and day of the month agree.\<close>

definition sameCalendarDay :: "date \<Rightarrow> date \<Rightarrow> bool" where
  "sameCalendarDay a b \<longleftrightarrow>
     getFullYear a = getFullYear b \<and> getMonth a = getMonth b \<and> getDate a = getDate b"

text \<open>
  The filter selection is \<open>selectedFilterDate: Date | null\<close>; \<open>handleDateClick\<close> sets it,
  so the model returns the new selection.
\<close>

definition isDateSelected :: "date option \<Rightarrow> date \<Rightarrow> bool" where
  "isDateSelected selectedFilterDate date =
     (case selectedFilterDate of
        None \<Rightarrow> False
      | Some s \<Rightarrow>
          getFullYear date = getFullYear s \<and>
          getMonth date = getMonth s \<and>
          getDate date = getDate s)"

definition handleDateClick :: "date option \<Rightarrow> date \<Rightarrow> date option" where
  "handleDateClick selectedFilterDate date =
     (if isDateSelected selectedFilterDate date then None else Some date)"

section \<open>Amounts and rounding\<close>

text \<open>
  Amounts are JavaScript numbers, that is binary64 floating-point numbers. A number is
  modelled by the real number it denotes, and an arithmetic operation by the exact
  operation followed by \<open>fl\<close>, which rounds a real to the nearest number with a
  significand of 53 bits, a tie going to the even significand. \<open>scale\<close> brings the
  magnitude into the range from \<open>2^52\<close> to \<open>2^53\<close> by halving or doubling it;
  \<open>fuel\<close> steps are enough from every finite binary64 magnitude. NaN, the infinities,
  the negative zero, overflow and the reduced precision of subnormal numbers are outside
  the model.
\<close>

definition roundTiesToEven :: "real \<Rightarrow> int" where
  "roundTiesToEven y =
     (let n = \<lfloor>y\<rfloor>; r = y - of_int n
      in if r < 1 / 2 then n else if 1 / 2 < r then n + 1
         else if even n then n else n + 1)"

fun scale :: "nat \<Rightarrow> real \<Rightarrow> real \<Rightarrow> real \<times> real" where
  "scale 0 m s = (m, s)"
| "scale (Suc n) m s =
     (if 2 ^ 53 \<le> m then scale n (m / 2) (2 * s)
      else if m < 2 ^ 52 then scale n (2 * m) (s / 2)
      else (m, s))"

definition fuel :: nat where
  "fuel = 1200"

definition fl :: "real \<Rightarrow> real" where
  "fl x =
     (if x = 0 then 0
      else case scale fuel \<bar>x\<bar> 1 of
             (m, s) \<Rightarrow> sgn x * of_int (roundTiesToEven m) * s)"

text \<open>
  \<open>Math.round\<close> gives the nearest integer and, of two nearest integers, the larger one;
  its result is exact. \<open>roundToStep\<close> is the expression \<open>Math.round(num / 10) * 10\<close> of
  \<open>handleAmountBlur\<close>, \<open>handleAmountKeyDown\<close> and \<open>addTransaction\<close>: a division and a
  multiplication, each rounded.
\<close>

definition Math_round :: "real \<Rightarrow> int" where
  "Math_round x = \<lfloor>x + 1 / 2\<rfloor>"

definition roundToStep :: "real \<Rightarrow> real" where
  "roundToStep x = fl (of_int (Math_round (fl (x / 10))) * 10)"



text \<open>
  \<open>handleAmountBlur\<close> reads the field's text and may set the \<open>amount\<close> state. The two
  library functions it calls are parameters: \<open>parseFloat\<close> (\<open>None\<close> is NaN) and the
  number's \<open>toString\<close>. The result is the \<open>amount\<close> state after the handler.
\<close>

definition handleAmountBlur ::
    "(string \<Rightarrow> real option) \<Rightarrow> (real \<Rightarrow> string) \<Rightarrow> string \<Rightarrow> string \<Rightarrow> string" where
  "handleAmountBlur parseFloat toString amount value =
     (if value = [] then amount
      else case parseFloat value of
             None \<Rightarrow> amount
           | Some num \<Rightarrow>
               if 0 \<le> num then toString (roundToStep num) else amount)"

section \<open>Categories\<close>

text \<open>
  \<open>deleteCategory\<close> works on the states \<open>categories\<close> and \<open>category\<close>. It raises an alert
  or asks the user to confirm; the answer of \<open>confirm\<close> is an input of the model, and the
  alert is returned beside the new state.
\<close>

record categoryState =
  categories :: "string list"
  category :: string

datatype alert = AtLeastOneCategoryRequired

definition deleteCategory ::
    "bool \<Rightarrow> string \<Rightarrow> categoryState \<Rightarrow> alert option \<times> categoryState" where
  "deleteCategory confirmed catToDelete s =
     (if length (categories s) \<le> 1 then (Some AtLeastOneCategoryRequired, s)
      else if confirmed then
        (let updated = filter (\<lambda>cat. cat \<noteq> catToDelete) (categories s)
         in (None,
             \<lparr>categories = updated,
              category = (if category s = catToDelete \<and> 0 < length updated
                          then hd updated else category s)\<rparr>))
      else (None, s))"

section \<open>Transactions and summaries\<close>

text \<open>
  A row of the \<open>transactions\<close> table. \<open>created_at\<close> holds the date that
  \<open>new Date(t.created_at)\<close> parses from the stored text.
\<close>

datatype TransactionType = Income | Expense

record Transaction =
  t_id :: int
  t_amount :: real
  t_description :: string
  t_category :: string
  t_type :: TransactionType
  created_at :: date

record Summary =
  income :: real
  expense :: real
  balance :: real

text \<open>
  \<open>xs.reduce((sum, t) => sum + f(t), 0)\<close> is a left fold from 0 whose every addition is
  rounded; so is the subtraction that gives the balance.
\<close>

definition calculateSummary :: "Transaction list \<Rightarrow> Summary" where
  "calculateSummary transactions =
     (let inc = foldl (\<lambda>sum t. fl (sum + t_amount t)) 0
                  (filter (\<lambda>t. t_type t = Income) transactions);
          exp = foldl (\<lambda>sum t. fl (sum + t_amount t)) 0
                  (filter (\<lambda>t. t_type t = Expense) transactions)
      in \<lparr>income = inc, expense = exp, balance = fl (inc - exp)\<rparr>)"

definition getTransactionsForDate :: "Transaction list \<Rightarrow> date \<Rightarrow> Transaction list" where
  "getTransactionsForDate transactions date =
     filter (\<lambda>t. getFullYear (created_at t) = getFullYear date \<and>
                 getMonth (created_at t) = getMonth date \<and>
                 getDate (created_at t) = getDate date) transactions"

definition getTotalForDate :: "Transaction list \<Rightarrow> date \<Rightarrow> real" where
  "getTotalForDate transactions date =
     foldl (\<lambda>sum t. fl (sum + (if t_type t = Income then t_amount t else - t_amount t))) 0
       (getTransactionsForDate transactions date)"

definition getTransactionsForMonth :: "Transaction list \<Rightarrow> date \<Rightarrow> Transaction list" where
  "getTransactionsForMonth transactions date =
     (let year = getFullYear date; month = getMonth date
      in filter (\<lambda>t. getFullYear (created_at t) = year \<and> getMonth (created_at t) = month)
           transactions)"

definition calculateMonthlySummary :: "Transaction list \<Rightarrow> date \<Rightarrow> Summary" where
  "calculateMonthlySummary transactions date =
     (let monthTransactions = getTransactionsForMonth transactions date;
          inc = foldl (\<lambda>sum t. fl (sum + t_amount t)) 0
                  (filter (\<lambda>t. t_type t = Income) monthTransactions);
          exp = foldl (\<lambda>sum t. fl (sum + t_amount t)) 0
                  (filter (\<lambda>t. t_type t = Expense) monthTransactions)
      in \<lparr>income = inc, expense = exp, balance = fl (inc - exp)\<rparr>)"

section \<open>Month-over-month lines of the summary cards\<close>

text \<open>
  Each summary card shows a comparison line under a condition on the previous month's
  value. The income card:
  \<^verbatim>\<open>
  {previousMonthSummary.income > 0 && (
    <p>... {income >= previousMonthSummary.income ? '+' : ''}
      {formatCurrency(income - previousMonthSummary.income)} (
      {previousMonthSummary.income > 0
        ? ((income / previousMonthSummary.income - 1) * 100).toFixed(1)
        : '0'}
      %)</p>)}
  \<close>
  The line is \<open>None\<close> when it is not rendered. A quotient is taken through \<open>divide\<close>, which
  gives \<open>NotANumber\<close> for a zero divisor, where JavaScript gives NaN or an infinity. The
  percentage is the number handed to \<open>toFixed(1)\<close>; the currency and decimal formatting
  of the text are left out.
\<close>

datatype quotient = Number real | NotANumber

definition divide_js :: "real \<Rightarrow> real \<Rightarrow> quotient" where
  "divide_js a b = (if b = 0 then NotANumber else Number (a / b))"

datatype percentage = Percent real | ZeroText | PercentNaN

definition percentChange :: "real \<Rightarrow> real \<Rightarrow> percentage" where
  "percentChange cur prev =
     (if 0 < prev
      then (case divide_js cur prev of
              Number q \<Rightarrow> Percent ((q - 1) * 100)
            | NotANumber \<Rightarrow> PercentNaN)
      else ZeroText)"

record deltaLine =
  plusSign :: bool
  delta :: real
  percent :: "percentage option"

definition incomeDeltaLine :: "Summary \<Rightarrow> Summary \<Rightarrow> deltaLine option" where
  "incomeDeltaLine cur prev =
     (if 0 < income prev
      then Some \<lparr>plusSign = (income prev \<le> income cur),
                 delta = income cur - income prev,
                 percent = Some (percentChange (income cur) (income prev))\<rparr>
      else None)"

definition expenseDeltaLine :: "Summary \<Rightarrow> Summary \<Rightarrow> deltaLine option" where
  "expenseDeltaLine cur prev =
     (if 0 < expense prev
      then Some \<lparr>plusSign = (expense prev \<le> expense cur),
                 delta = expense cur - expense prev,
                 percent = Some (percentChange (expense cur) (expense prev))\<rparr>
      else None)"

definition balanceDeltaLine :: "Summary \<Rightarrow> Summary \<Rightarrow> deltaLine option" where
  "balanceDeltaLine cur prev =
     (if balance prev \<noteq> 0
      then Some \<lparr>plusSign = (balance prev \<le> balance cur),
                 delta = balance cur - balance prev,
                 percent = None\<rparr>
      else None)"

section \<open>Facts about the calendar\<close>

lemma div_succ_int:
  fixes a n :: int
  assumes "0 < n"
  shows "(a + 1) div n = a div n + (if (a + 1) mod n = 0 then 1 else 0)"
proof -
  define q where "q = a div n"
  define r where "r = a mod n"
  have a: "a = n * q + r" by (simp add: q_def r_def)
  have r: "0 \<le> r" "r < n" using assms by (simp_all add: r_def)
  show ?thesis
  proof (cases "r = n - 1")
    case True
    then have e: "a + 1 = n * (q + 1)" using a by (simp add: algebra_simps)
    have "(n * (q + 1)) div n = q + 1" "(n * (q + 1)) mod n = 0" using assms by simp_all
    then show ?thesis unfolding e q_def[symmetric] by simp
  next
    case False
    then have lt: "0 \<le> r + 1" "r + 1 < n" using r by linarith+
    have e: "a + 1 = (r + 1) + n * q" using a by linarith
    have "((r + 1) + n * q) div n = q" "((r + 1) + n * q) mod n = r + 1"
      using assms lt by simp_all
    then show ?thesis unfolding e q_def[symmetric] using lt r by simp
  qed
qed

lemma mod_shift: "(y - n * k) mod n = y mod n" for y :: int
  using mod_mult_self2 [of y n "- k"] by simp

lemma div4_step:
  "(y - 1968) div 4 = (y - 1969) div 4 + (if y mod 4 = 0 then 1 else 0)" for y :: int
  using div_succ_int [of 4 "y - 1969"] mod_shift [of y 4 492] by simp

lemma div100_step:
  "(y - 1900) div 100 = (y - 1901) div 100 + (if y mod 100 = 0 then 1 else 0)" for y :: int
  using div_succ_int [of 100 "y - 1901"] mod_shift [of y 100 19] by simp

lemma div400_step:
  "(y - 1600) div 400 = (y - 1601) div 400 + (if y mod 400 = 0 then 1 else 0)" for y :: int
  using div_succ_int [of 400 "y - 1601"] mod_shift [of y 400 4] by simp

text \<open>A year is as long as the distance between its first day and the next year's.\<close>

lemma DayFromYear_Suc: "DayFromYear (y + 1) = DayFromYear y + DaysInYear y"
proof -
  define a where "a = (y - 1969) div 4"
  define b where "b = (y - 1901) div 100"
  define c where "c = (y - 1601) div 400"
  define a' where "a' = (y - 1968) div 4"
  define b' where "b' = (y - 1900) div 100"
  define c' where "c' = (y - 1600) div 400"
  define l4 :: int where "l4 = (if y mod 4 = 0 then 1 else 0)"
  define l100 :: int where "l100 = (if y mod 100 = 0 then 1 else 0)"
  define l400 :: int where "l400 = (if y mod 400 = 0 then 1 else 0)"
  have s: "a' = a + l4" "b' = b + l100" "c' = c + l400"
    unfolding a_def b_def c_def a'_def b'_def c'_def l4_def l100_def l400_def
    by (rule div4_step div100_step div400_step)+
  have m1: "y mod 100 = 0 \<Longrightarrow> y mod 4 = 0"
    using mod_mod_cancel [of 4 100 y] by simp
  have m2: "y mod 400 = 0 \<Longrightarrow> y mod 100 = 0"
    using mod_mod_cancel [of 100 400 y] by simp
  have diy: "DaysInYear y = 365 + l4 - l100 + l400"
    unfolding DaysInYear_def l4_def l100_def l400_def using m1 m2 by simp
  have d1: "DayFromYear (y + 1) = 365 * (y - 1969) + a' - b' + c'"
    unfolding DayFromYear_def a'_def b'_def c'_def by simp
  have d0: "DayFromYear y = 365 * (y - 1970) + a - b + c"
    unfolding DayFromYear_def a_def b_def c_def by simp
  show ?thesis unfolding d1 d0 diy s by simp
qed

lemma div_bounds_int:
  fixes x n :: int
  assumes "0 < n"
  shows "n * (x div n) \<le> x" and "x < n * (x div n) + n"
proof -
  have "x = n * (x div n) + x mod n" by simp
  moreover have "0 \<le> x mod n" "x mod n < n" using assms by simp_all
  ultimately show "n * (x div n) \<le> x" and "x < n * (x div n) + n" by linarith+
qed

text \<open>The first day of year \<open>y\<close> lies within two days of \<open>365.2425 * (y - 1970)\<close>.\<close>

lemma DayFromYear_bounds:
  "146097 * y - 287811596 \<le> 400 * DayFromYear y"
  "400 * DayFromYear y \<le> 146097 * y - 287810501"
proof -
  define a where "a = (y - 1969) div 4"
  define b where "b = (y - 1901) div 100"
  define c where "c = (y - 1601) div 400"
  have a: "4 * a \<le> y - 1969" "y - 1969 < 4 * a + 4"
    unfolding a_def by (rule div_bounds_int, simp)+
  have b: "100 * b \<le> y - 1901" "y - 1901 < 100 * b + 100"
    unfolding b_def by (rule div_bounds_int, simp)+
  have c: "400 * c \<le> y - 1601" "y - 1601 < 400 * c + 400"
    unfolding c_def by (rule div_bounds_int, simp)+
  have d: "400 * DayFromYear y = 146000 * y - 287620000 + 400 * a - 400 * b + 400 * c"
    unfolding DayFromYear_def a_def b_def c_def by simp
  show "146097 * y - 287811596 \<le> 400 * DayFromYear y"
    unfolding d using a b c by linarith
  show "400 * DayFromYear y \<le> 146097 * y - 287810501"
    unfolding d using a b c by linarith
qed

lemma DaysInYear_pos: "0 < DaysInYear y"
  unfolding DaysInYear_def by simp

lemma YearFromDay_unique:
  assumes lo: "DayFromYear y \<le> d" and hi: "d < DayFromYear (y + 1)"
  shows "YearFromDay d = y"
proof -
  define q where "q = (400 * d) div 146097"
  define y0 where "y0 = 1970 + q"
  have q: "146097 * q \<le> 400 * d" "400 * d < 146097 * q + 146097"
    unfolding q_def by (rule div_bounds_int, simp)+
  have ge: "y - 1 \<le> y0"
    using DayFromYear_bounds(1) [of y] lo q unfolding y0_def by linarith
  have ub: "400 * DayFromYear (y + 1) \<le> 146097 * y - 287664404"
    using DayFromYear_bounds(2) [of "y + 1"] by simp
  have le: "y0 \<le> y + 1"
    using ub hi q unfolding y0_def by linarith
  have prev: "DayFromYear (y - 1) < DayFromYear y"
    using DayFromYear_Suc [of "y - 1"] DaysInYear_pos [of "y - 1"] by simp
  have nxt: "DayFromYear (y + 1) < DayFromYear (y + 2)"
    using DayFromYear_Suc [of "y + 1"] DaysInYear_pos [of "y + 1"] by (simp add: add.assoc)
  have cases: "y0 = y - 1 \<or> y0 = y \<or> y0 = y + 1" using ge le by linarith
  have unf: "YearFromDay d =
     (if d < DayFromYear y0 then y0 - 1
      else if DayFromYear (y0 + 1) \<le> d then y0 + 1 else y0)"
    by (simp add: YearFromDay_def y0_def q_def Let_def)
  from cases show ?thesis
  proof (elim disjE)
    assume "y0 = y - 1"
    then show ?thesis unfolding unf using lo hi prev by simp
  next
    assume "y0 = y"
    then show ?thesis unfolding unf using lo hi by simp
  next
    assume "y0 = y + 1"
    then show ?thesis unfolding unf using lo hi nxt by (simp add: add.assoc)
  qed
qed

text \<open>The year computed for a day is the year whose days contain it.\<close>

lemma YearFromDay_bounds:
  "DayFromYear (YearFromDay d) \<le> d" "d < DayFromYear (YearFromDay d + 1)"
proof -
  define q where "q = (400 * d) div 146097"
  define y0 where "y0 = 1970 + q"
  have q: "146097 * q \<le> 400 * d" "400 * d < 146097 * q + 146097"
    unfolding q_def by (rule div_bounds_int, simp)+
  have "400 * DayFromYear (y0 - 1) \<le> 146097 * q - 145508"
    using DayFromYear_bounds(2) [of "y0 - 1"] by (simp add: y0_def)
  then have lo: "DayFromYear (y0 - 1) \<le> d" using q by linarith
  have "146097 * q + 291688 \<le> 400 * DayFromYear (y0 + 2)"
    using DayFromYear_bounds(1) [of "y0 + 2"] by (simp add: y0_def)
  then have hi: "d < DayFromYear (y0 + 1 + 1)" using q by (simp add: add.assoc)
  have unf: "YearFromDay d =
     (if d < DayFromYear y0 then y0 - 1
      else if DayFromYear (y0 + 1) \<le> d then y0 + 1 else y0)"
    by (simp add: YearFromDay_def y0_def q_def Let_def)
  show "DayFromYear (YearFromDay d) \<le> d"
    unfolding unf using lo by simp
  show "d < DayFromYear (YearFromDay d + 1)"
    unfolding unf using hi by simp
qed

section \<open>Loops over integer ranges\<close>

lemma map_rev_upto:
  "map g (rev [0..s - 1]) = map (\<lambda>k. g (s - 1 - k)) [0..s - 1]"
proof (rule nth_equalityI)
  show "length (map g (rev [0..s - 1])) = length (map (\<lambda>k. g (s - 1 - k)) [0..s - 1])"
    by simp
next
  fix i assume "i < length (map g (rev [0..s - 1]))"
  then have i: "i < nat s" by simp
  have "[0..s - 1] ! (nat s - Suc i) = 0 + int (nat s - Suc i)"
    using i by (intro nth_upto) linarith
  then have a: "rev [0..s - 1] ! i = s - 1 - int i"
    using i by (simp add: rev_nth)
  have b: "[0..s - 1] ! i = int i" using i by simp
  show "map g (rev [0..s - 1]) ! i = map (\<lambda>k. g (s - 1 - k)) [0..s - 1] ! i"
    using i a b by simp
qed

lemma map_shift_upto:
  "map g [a..b] = map (\<lambda>k. g (k - c)) [a + c..b + c]"
proof (rule nth_equalityI)
  show "length (map g [a..b]) = length (map (\<lambda>k. g (k - c)) [a + c..b + c])" by simp
next
  fix i assume "i < length (map g [a..b])"
  then have i: "i < nat (b - a + 1)" by simp
  then have "[a..b] ! i = a + int i" "[a + c..b + c] ! i = a + c + int i"
    by (simp_all)
  then show "map g [a..b] ! i = map (\<lambda>k. g (k - c)) [a + c..b + c] ! i"
    using i by simp
qed

lemma three_loops:
  fixes s len r :: int
  assumes "0 \<le> s" "1 \<le> len" "0 \<le> r"
    and g1: "\<And>i. g1 i = h (s - 1 - i)"
    and g2: "\<And>i. g2 i = h (s + i - 1)"
    and g3: "\<And>i. g3 i = h (s + len + i - 1)"
  shows "map g1 (rev [0..s - 1]) @ map g2 [1..len] @ map g3 [1..r] =
         map h [0..s + len + r - 1]"
proof -
  have a: "map g1 (rev [0..s - 1]) = map h [0..s - 1]"
    by (simp add: map_rev_upto [of g1 s] g1)
  have b: "map g2 [1..len] = map h [s..s + len - 1]"
    using map_shift_upto [of g2 1 len "s - 1"] by (simp add: g2 algebra_simps)
  have c: "map g3 [1..r] = map h [s + len..s + len + r - 1]"
    using map_shift_upto [of g3 1 r "s + len - 1"] by (simp add: g3 algebra_simps)
  have "[0..s + len + r - 1] = [0..s - 1] @ [s..s + len + r - 1]"
    using assms(1-3) by (intro upto_split1) simp_all
  also have "[s..s + len + r - 1] = [s..s + len - 1] @ [s + len..s + len + r - 1]"
    using assms(1-3) upto_split1 [of s "s + len" "s + len + r - 1"]
    by (cases "r = 0") simp_all
  finally show ?thesis by (simp add: a b c)
qed

section \<open>Calendar fields of a day built by MakeDay\<close>

lemma leapDays_cases: "leapDays y = 0 \<or> leapDays y = 1"
  by (simp add: leapDays_def)

lemma DaysInYear_leapDays: "DaysInYear y = 365 + leapDays y"
  by (simp add: leapDays_def DaysInYear_def)

lemma Day_midnight: "Day (x * msPerDay) = x"
  by (simp add: Day_def msPerDay_def)

lemma month_cases:
  fixes m :: int
  assumes "0 \<le> m" "m \<le> 11"
  shows "m = 0 \<or> m = 1 \<or> m = 2 \<or> m = 3 \<or> m = 4 \<or> m = 5 \<or> m = 6 \<or> m = 7 \<or>
         m = 8 \<or> m = 9 \<or> m = 10 \<or> m = 11"
  using assms by presburger

lemma monthLength_range: "0 \<le> l \<Longrightarrow> l \<le> 1 \<Longrightarrow> 28 \<le> monthLength l m \<and> monthLength l m \<le> 31"
  by (simp add: monthLength_def)

lemma monthStart_offset:
  assumes "0 \<le> m" "m \<le> 11" "l = 0 \<or> l = 1" "1 \<le> dt" "dt \<le> monthLength l m"
  shows "0 \<le> monthStart l m + dt - 1" "monthStart l m + dt - 1 < 365 + l"
proof -
  show "0 \<le> monthStart l m + dt - 1"
    using month_cases [OF assms(1,2)] assms(3,4)
    by (elim disjE) (simp_all add: monthStart_def)
  show "monthStart l m + dt - 1 < 365 + l"
    using month_cases [OF assms(1,2)] assms(3,5)
    by (elim disjE) (simp_all add: monthStart_def monthLength_def)
qed

lemma month_of_offset:
  assumes "0 \<le> m" "m \<le> 11" "l = 0 \<or> l = 1" "1 \<le> dt" "dt \<le> monthLength l m"
    and w: "w = monthStart l m + dt - 1"
  shows "(if w < 31 then 0 else if w < 59 + l then 1 else if w < 90 + l then 2
         else if w < 120 + l then 3 else if w < 151 + l then 4
         else if w < 181 + l then 5 else if w < 212 + l then 6
         else if w < 243 + l then 7 else if w < 273 + l then 8
         else if w < 304 + l then 9 else if w < 334 + l then 10
         else 11) = m"
  using month_cases [OF assms(1,2)] assms(3-5) unfolding w
  by (elim disjE) (simp_all add: monthStart_def monthLength_def)

lemma fields_of_day:
  assumes m: "0 \<le> mn" "mn \<le> 11" and dt: "1 \<le> dt" "dt \<le> monthLength (leapDays y) mn"
  shows "YearFromDay (DayFromYear y + monthStart (leapDays y) mn + dt - 1) = y"
    and "MonthFromDay (DayFromYear y + monthStart (leapDays y) mn + dt - 1) = mn"
    and "DateFromDay (DayFromYear y + monthStart (leapDays y) mn + dt - 1) = dt"
proof -
  define l where "l = leapDays y"
  define d where "d = DayFromYear y + monthStart l mn + dt - 1"
  have l: "l = 0 \<or> l = 1" unfolding l_def by (rule leapDays_cases)
  have dt': "dt \<le> monthLength l mn" using dt by (simp add: l_def)
  note off = monthStart_offset [OF m l dt(1) dt']
  have yr: "YearFromDay d = y"
  proof (rule YearFromDay_unique)
    show "DayFromYear y \<le> d" using off(1) by (simp add: d_def)
    show "d < DayFromYear (y + 1)"
      using off(2) by (simp add: d_def DayFromYear_Suc DaysInYear_leapDays l_def)
  qed
  have w: "DayWithinYear d = monthStart l mn + dt - 1"
    by (simp add: DayWithinYear_def yr) (simp add: d_def)
  have il: "InLeapYear d = l" by (simp add: InLeapYear_def yr l_def)
  have mo: "MonthFromDay d = mn"
    unfolding MonthFromDay_def w il Let_def by (rule month_of_offset [OF m l dt(1) dt' refl])
  have da: "DateFromDay d = dt" unfolding DateFromDay_def w il mo by simp
  show "YearFromDay (DayFromYear y + monthStart (leapDays y) mn + dt - 1) = y"
    and "MonthFromDay (DayFromYear y + monthStart (leapDays y) mn + dt - 1) = mn"
    and "DateFromDay (DayFromYear y + monthStart (leapDays y) mn + dt - 1) = dt"
    using yr mo da unfolding d_def l_def by simp_all
qed

lemma MonthFromDay_range: "0 \<le> MonthFromDay d \<and> MonthFromDay d \<le> 11"
  by (simp add: MonthFromDay_def Let_def)

lemma MakeDay_month:
  "0 \<le> m \<Longrightarrow> m \<le> 11 \<Longrightarrow>
     MakeDay y m i = DayFromYear y + monthStart (leapDays y) m + i - 1"
  by (simp add: MakeDay_def)

lemma MakeDay_next:
  assumes "0 \<le> m" "m \<le> 11"
  shows "MakeDay y (m + 1) i = MakeDay y m i + monthLength (leapDays y) m"
proof (cases "m = 11")
  case True
  have "MakeDay y 12 i = DayFromYear (y + 1) + i - 1"
    by (simp add: MakeDay_def monthStart_def)
  then show ?thesis
    using True by (simp add: MakeDay_month DayFromYear_Suc DaysInYear_leapDays
        monthStart_def monthLength_def)
next
  case False
  then have "0 \<le> m + 1" "m + 1 \<le> 11" using assms by linarith+
  then have "MakeDay y (m + 1) i = DayFromYear y + monthStart (leapDays y) (m + 1) + i - 1"
    by (rule MakeDay_month)
  moreover have "monthStart l (m + 1) = monthStart l m + monthLength l m" for l
    using month_cases [OF assms] False
    by (elim disjE) (simp_all add: monthStart_def monthLength_def)
  ultimately show ?thesis
    using assms by (simp add: MakeDay_month)
qed

lemma MakeDay_prev:
  assumes "0 \<le> m" "m \<le> 11"
  shows "MakeDay y (m - 1) i =
           MakeDay y m i - (if m = 0 then 31 else monthLength (leapDays y) (m - 1))"
proof (cases "m = 0")
  case True
  have "MakeDay y (- 1) i = DayFromYear (y - 1) + 334 + leapDays (y - 1) + i - 1"
    by (simp add: MakeDay_def monthStart_def Let_def)
  moreover have "DayFromYear y = DayFromYear (y - 1) + 365 + leapDays (y - 1)"
    using DayFromYear_Suc [of "y - 1"] by (simp add: DaysInYear_leapDays)
  ultimately show ?thesis
    using True by (simp add: MakeDay_month monthStart_def)
next
  case False
  then have "0 \<le> m - 1" "m - 1 \<le> 11" using assms by linarith+
  then show ?thesis
    using MakeDay_next [of "m - 1" y i] False by simp
qed

section \<open>The month grid\<close>

lemma MakeDay_linear: "MakeDay y m i = MakeDay y m 1 + (i - 1)"
  by (simp add: MakeDay_def Let_def)

lemma WeekDay_range: "0 \<le> WeekDay d \<and> WeekDay d \<le> 6"
  by (simp add: WeekDay_def)

lemma DateFromDay_last:
  assumes "0 \<le> m" "m \<le> 11"
  shows "DateFromDay (MakeDay y (m + 1) 0) = monthLength (leapDays y) m"
proof -
  have r: "28 \<le> monthLength (leapDays y) m"
    using leapDays_cases [of y] by (auto simp add: monthLength_def)
  have "MakeDay y (m + 1) 0 =
          DayFromYear y + monthStart (leapDays y) m + monthLength (leapDays y) m - 1"
    using assms by (simp add: MakeDay_next MakeDay_month)
  then show ?thesis
    using fields_of_day(3) [OF assms, of "monthLength (leapDays y) m" y] r by simp
qed

lemma DateFromDay_before_first:
  assumes "0 \<le> m" "m \<le> 11"
  shows "DateFromDay (MakeDay y m 0) =
           (if m = 0 then 31 else monthLength (leapDays y) (m - 1))"
proof (cases "m = 0")
  case True
  have "MakeDay y 0 0 = DayFromYear (y - 1) + monthStart (leapDays (y - 1)) 11 + 31 - 1"
    using MakeDay_prev [of 0 y 31] by (simp add: MakeDay_def Let_def monthStart_def)
  then show ?thesis
    using fields_of_day(3) [of 11 31 "y - 1"] True by (simp add: monthLength_def)
next
  case False
  then have p: "0 \<le> m - 1" "m - 1 \<le> 11" using assms by linarith+
  have "MakeDay y (m - 1 + 1) 0 = MakeDay y m 0" by simp
  then show ?thesis
    using DateFromDay_last [OF p, of y] False by simp
qed

text \<open>
  The grid is the run of 42 consecutive local midnights that starts \<open>startingDayOfWeek\<close>
  days before the first of the month the constructor builds.
\<close>

lemma getDaysInMonth_shape:
  "getDaysInMonth ref =
     map (\<lambda>k. (Day (newDate (getFullYear ref) (getMonth ref) 1)
                - getDay (newDate (getFullYear ref) (getMonth ref) 1) + k) * msPerDay)
       [0..41]"
proof -
  define year where "year = getFullYear ref"
  define m where "m = getMonth ref"
  define yr where "yr = (if 0 \<le> year \<and> year \<le> 99 then 1900 + year else year)"
  define F where "F = MakeDay yr m 1"
  define s where "s = WeekDay F"
  define len where "len = monthLength (leapDays yr) m"
  define plen where "plen = (if m = 0 then 31 else monthLength (leapDays yr) (m - 1))"
  have m: "0 \<le> m" "m \<le> 11" using MonthFromDay_range by (simp_all add: m_def getMonth_def)
  have nd: "newDate year mm i = MakeDay yr mm i * msPerDay" for mm i
    by (simp add: newDate_def yr_def)
  have first: "Day (newDate year m 1) = F" by (simp add: nd Day_midnight F_def)
  have s: "getDay (newDate year m 1) = s" by (simp add: getDay_def first s_def)
  have s_range: "0 \<le> s" "s \<le> 6" using WeekDay_range [of F] by (simp_all add: s_def)
  have len: "getDate (newDate year (m + 1) 0) = len"
    by (simp add: getDate_def nd Day_midnight DateFromDay_last [OF m] len_def)
  have len_range: "28 \<le> len" "len \<le> 31"
    using leapDays_cases [of yr] by (auto simp add: len_def monthLength_def)
  have plen: "getDate (newDate year m 0) = plen"
    by (simp add: getDate_def nd Day_midnight DateFromDay_before_first [OF m] plen_def)
  define h where "h = (\<lambda>k. (F - s + k) * msPerDay)"
  have g1: "newDate year (m - 1) (plen - i) = h (s - 1 - i)" for i
  proof -
    have "MakeDay yr (m - 1) (plen - i) = MakeDay yr m (plen - i) - plen"
      using MakeDay_prev [OF m, of yr "plen - i"] by (simp add: plen_def)
    also have "\<dots> = F - i - 1"
      using MakeDay_linear [of yr m "plen - i"] by (simp add: F_def)
    finally show ?thesis by (simp add: nd h_def)
  qed
  have g2: "newDate year m i = h (s + i - 1)" for i
    using MakeDay_linear [of yr m i] by (simp add: nd h_def F_def)
  have g3: "newDate year (m + 1) i = h (s + len + i - 1)" for i
    using MakeDay_linear [of yr m i]
    by (simp add: nd h_def F_def MakeDay_next [OF m] len_def)
  have l2: "int (length (map (\<lambda>i. newDate year (m - 1) (plen - i)) (rev [0..s - 1]) @
                        map (newDate year m) [1..len])) = s + len"
    using s_range len_range by simp
  have r: "0 \<le> 42 - (s + len)" using s_range len_range by linarith
  have "getDaysInMonth ref =
          map (\<lambda>i. newDate year (m - 1) (plen - i)) (rev [0..s - 1]) @
          map (newDate year m) [1..len] @
          map (newDate year (m + 1)) [1..42 - (s + len)]"
    unfolding getDaysInMonth_def Let_def year_def [symmetric] m_def [symmetric] s len plen l2
    by simp
  also have "\<dots> = map h [0..s + len + (42 - (s + len)) - 1]"
    using s_range(1) len_range(1) r by (intro three_loops g1 g2 g3) simp_all
  finally have "getDaysInMonth ref = map h [0..41]" by simp
  then show ?thesis
    unfolding h_def first [symmetric] s [symmetric] year_def m_def .
qed


lemma getDaysInMonth_length: "length (getDaysInMonth ref) = 42"
  by (simp add: getDaysInMonth_shape)

lemma getDaysInMonth_nth:
  assumes "k < 42"
  shows "getDaysInMonth ref ! k =
     (Day (newDate (getFullYear ref) (getMonth ref) 1)
        - getDay (newDate (getFullYear ref) (getMonth ref) 1) + int k) * msPerDay"
  using assms by (simp add: getDaysInMonth_shape)

lemma getDaysInMonth_consecutive:
  assumes "i + 1 < 42"
  shows "getDaysInMonth ref ! (i + 1) = getDaysInMonth ref ! i + msPerDay"
  using assms by (simp add: getDaysInMonth_nth algebra_simps)

lemma Day_of_first:
  assumes "getDate D = 1"
  shows "Day D = MakeDay (getFullYear D) (getMonth D) 1"
proof -
  have m: "0 \<le> getMonth D" "getMonth D \<le> 11"
    using MonthFromDay_range by (simp_all add: getMonth_def)
  have "DayWithinYear (Day D) = monthStart (InLeapYear (Day D)) (MonthFromDay (Day D))"
    using assms by (simp add: getDate_def DateFromDay_def)
  then have "Day D = DayFromYear (YearFromDay (Day D))
                     + monthStart (leapDays (YearFromDay (Day D))) (MonthFromDay (Day D))"
    by (simp add: DayWithinYear_def InLeapYear_def)
  then show ?thesis
    using m by (simp add: MakeDay_month getFullYear_def getMonth_def)
qed

lemma getDaysInMonth_first:
  assumes y: "\<not> (0 \<le> getFullYear ref \<and> getFullYear ref \<le> 99)"
    and D: "getFullYear D = getFullYear ref" "getMonth D = getMonth ref" "getDate D = 1"
  shows "getDaysInMonth ref ! nat (getDay D) = Day D * msPerDay"
proof -
  have "newDate (getFullYear ref) (getMonth ref) 1 =
          MakeDay (getFullYear ref) (getMonth ref) 1 * msPerDay"
    using y unfolding newDate_def Let_def by (simp only: if_False)
  then have nd: "newDate (getFullYear ref) (getMonth ref) 1 = Day D * msPerDay"
    using Day_of_first [OF D(3)] D(1,2) by simp
  have wd: "0 \<le> getDay D" "getDay D \<le> 6"
    using WeekDay_range [of "Day D"] by (simp_all add: getDay_def)
  then have "nat (getDay D) < 42" by linarith
  then show ?thesis
    using wd by (simp add: getDaysInMonth_nth nd Day_midnight getDay_def)
qed

text \<open>A day is the day \<open>MakeDay\<close> builds from its own year, month and day of the month.\<close>

lemma Day_from_fields: "Day t = MakeDay (getFullYear t) (getMonth t) (getDate t)"
proof -
  have m: "0 \<le> getMonth t" "getMonth t \<le> 11"
    using MonthFromDay_range by (simp_all add: getMonth_def)
  show ?thesis
    using m by (simp add: MakeDay_month)
      (simp add: getFullYear_def getMonth_def getDate_def DateFromDay_def DayWithinYear_def
        InLeapYear_def)
qed

lemma sameCalendarDay_iff_Day: "sameCalendarDay a b \<longleftrightarrow> Day a = Day b"
proof
  assume "sameCalendarDay a b"
  then show "Day a = Day b"
    using Day_from_fields [of a] Day_from_fields [of b] by (simp add: sameCalendarDay_def)
next
  assume "Day a = Day b"
  then show "sameCalendarDay a b"
    by (simp add: sameCalendarDay_def getFullYear_def getMonth_def getDate_def)
qed

lemmas calendar_defs =
  getFullYear_def getMonth_def getDate_def getDay_def Day_def TimeWithinDay_def msPerDay_def
  YearFromDay_def MonthFromDay_def DateFromDay_def WeekDay_def DayWithinYear_def
  InLeapYear_def leapDays_def DaysInYear_def DayFromYear_def monthStart_def MakeDay_def
  newDate_def Let_def

text \<open>
  When the year of the reference date is not one of 0 to 99, the grid is the one the
  specification describes: 42 cells on consecutive calendar days, with the 1st of the
  month in the cell of its weekday. The count and the consecutive days hold in every year.
\<close>

lemma getDaysInMonth_calendar_days:
  "length (getDaysInMonth ref) = 42 \<and>
   (\<forall>i. i + 1 < 42 \<longrightarrow>
        Day (getDaysInMonth ref ! (i + 1)) = Day (getDaysInMonth ref ! i) + 1) \<and>
   (\<not> (0 \<le> getFullYear ref \<and> getFullYear ref \<le> 99) \<longrightarrow>
      (\<forall>D. getFullYear D = getFullYear ref \<and> getMonth D = getMonth ref \<and> getDate D = 1 \<longrightarrow>
           Day (getDaysInMonth ref ! nat (getDay D)) = Day D))"
proof -
  have "Day (getDaysInMonth ref ! (i + 1)) = Day (getDaysInMonth ref ! i) + 1"
    if "i + 1 < 42" for i
    using that by (simp add: getDaysInMonth_nth Day_midnight)
  moreover have "Day (getDaysInMonth ref ! nat (getDay D)) = Day D"
    if "\<not> (0 \<le> getFullYear ref \<and> getFullYear ref \<le> 99)"
      "getFullYear D = getFullYear ref" "getMonth D = getMonth ref" "getDate D = 1" for D
    using getDaysInMonth_first [OF that] by (simp add: Day_midnight)
  ultimately show ?thesis
    using getDaysInMonth_length by blast
qed

text \<open>
  Claim C2 asks that the 1st of the reference date's month stands in the cell of its
  weekday. \<open>getDaysInMonth\<close> builds every cell with \<open>new Date(year, month, day)\<close>, and
  that constructor reads a year from 0 to 99 as 1900 + year. For the reference date
  1 January of the year 50, a Saturday, the cells are those of January 1950: cell 6 is
  7 January 1950, and the first cell is 1 January 1950, so no cell is a day of the
  reference date's month.
\<close>

theorem getDaysInMonth_two_digit_year:
  "getFullYear (- 60589296000000) = 50 \<and> getMonth (- 60589296000000) = 0 \<and>
   getDate (- 60589296000000) = 1 \<and> getDay (- 60589296000000) = 6 \<and>
   getDaysInMonth (- 60589296000000) ! 6 = - 630633600000 \<and>
   getFullYear (- 630633600000) = 1950 \<and> getMonth (- 630633600000) = 0 \<and>
   getDate (- 630633600000) = 7 \<and>
   Day (getDaysInMonth (- 60589296000000) ! 6) \<noteq> Day (- 60589296000000) \<and>
   getFullYear (getDaysInMonth (- 60589296000000) ! 0) = 1950 \<and>
   getMonth (getDaysInMonth (- 60589296000000) ! 0) = 0 \<and>
   getDate (getDaysInMonth (- 60589296000000) ! 0) = 1"
  by code_simp

text \<open>
  Claim C9: the month grid depends only on the year and the month of the reference date.
  Two reference dates in the same year and month, whatever their day of the month and
  time of day, give the same sequence of 42 cells.
\<close>

theorem getDaysInMonth_same_month:
  "getFullYear a = getFullYear b \<Longrightarrow> getMonth a = getMonth b \<Longrightarrow>
     getDaysInMonth a = getDaysInMonth b \<and> length (getDaysInMonth a) = 42"
  by (simp add: getDaysInMonth_length) (simp add: getDaysInMonth_def)

theorem getDaysInMonth_same_month_witness:
  "getFullYear 1710496800000 = getFullYear 1711929599999 \<and>
   getMonth 1710496800000 = getMonth 1711929599999 \<and>
   getDate 1710496800000 = 15 \<and> getDate 1711929599999 = 31 \<and>
   getDaysInMonth 1710496800000 = getDaysInMonth 1711929599999"
proof -
  have f: "getFullYear 1710496800000 = 2024" "getMonth 1710496800000 = 2"
    "getFullYear 1711929599999 = 2024" "getMonth 1711929599999 = 2"
    "getDate 1710496800000 = 15" "getDate 1711929599999 = 31"
    by (simp_all add: calendar_defs)
  show ?thesis
    using getDaysInMonth_same_month [of 1710496800000 1711929599999] f by simp
qed

section \<open>The previous month\<close>

text \<open>
  Claim C1 asks that \<open>getPreviousMonth\<close> lands in the month before the reference date
  also when the day of the month does not exist there. \<open>setMonth\<close> keeps the day of the
  month, so from 31 March 2024 (\<open>new Date(2024, 2, 31)\<close>) it builds 31 February, which is
  2 March 2024: the result is in the month of the reference date, not in February.
\<close>

theorem getPreviousMonth_rollover:
  "newDate 2024 2 31 = 1711843200000 \<and>
   getFullYear (newDate 2024 2 31) = 2024 \<and> getMonth (newDate 2024 2 31) = 2 \<and>
   getDate (newDate 2024 2 31) = 31 \<and>
   getFullYear (getPreviousMonth (newDate 2024 2 31)) = 2024 \<and>
   getMonth (getPreviousMonth (newDate 2024 2 31)) = 2 \<and>
   getDate (getPreviousMonth (newDate 2024 2 31)) = 2"
  by code_simp

section \<open>Rounding to the step of 10\<close>

text \<open>The loop of \<open>scale\<close> written for a counter given as a numeral.\<close>

lemma scale_unfold:
  "scale n m s =
     (if n = 0 then (m, s)
      else if 2 ^ 53 \<le> m then scale (n - 1) (m / 2) (2 * s)
      else if m < 2 ^ 52 then scale (n - 1) (2 * m) (s / 2)
      else (m, s))"
  by (cases n) simp_all

lemmas fl_eval = fl_def fuel_def scale_unfold roundTiesToEven_def Let_def

lemma scale_product:
  "scale n m s = (m', s') \<Longrightarrow> m' * s' = m * s"
  by (induction n arbitrary: m s) (auto split: if_splits)

lemma scale_positive:
  "0 < s \<Longrightarrow> scale n m s = (m', s') \<Longrightarrow> 0 < s'"
proof (induction n arbitrary: m s)
  case 0
  then show ?case by simp
next
  case (Suc n)
  have a: "0 < 2 * s" "0 < s / 2" using Suc.prems(1) by simp_all
  show ?case
    using Suc.prems Suc.IH [OF a(1)] Suc.IH [OF a(2)] by (auto split: if_splits)
qed

lemma scale_halving:
  "2 ^ 52 \<le> m \<Longrightarrow> m < 2 ^ 53 * 2 ^ n \<Longrightarrow> scale n m s = (m', s') \<Longrightarrow>
     2 ^ 52 \<le> m' \<and> m' < 2 ^ 53"
proof (induction n arbitrary: m s)
  case 0
  then show ?case by simp
next
  case (Suc n)
  show ?case
  proof (cases "2 ^ 53 \<le> m")
    case True
    then have "scale n (m / 2) (2 * s) = (m', s')" using Suc.prems(3) by simp
    moreover have "2 ^ 52 \<le> m / 2" using True by simp
    moreover have "m / 2 < 2 ^ 53 * 2 ^ n" using Suc.prems(2) by simp
    ultimately show ?thesis using Suc.IH by blast
  next
    case False
    then show ?thesis using Suc.prems by simp
  qed
qed

lemma scale_doubling:
  "m < 2 ^ 52 \<Longrightarrow> scale n m s = (m', s') \<Longrightarrow>
     (2 ^ 52 \<le> m' \<and> m' < 2 ^ 53) \<or> (m' < 2 ^ 52 \<and> s' = s / 2 ^ n)"
proof (induction n arbitrary: m s)
  case 0
  then show ?case by simp
next
  case (Suc n)
  have step: "scale n (2 * m) (s / 2) = (m', s')" using Suc.prems by simp
  show ?case
  proof (cases "2 * m < 2 ^ 52")
    case True
    then show ?thesis using Suc.IH [OF True step] by simp
  next
    case False
    have "2 * m < 2 ^ 53 * 2 ^ n"
    proof -
      have "2 * m < 2 ^ 53" using Suc.prems(1) by simp
      also have "(2::real) ^ 53 \<le> 2 ^ 53 * 2 ^ n" by simp
      finally show ?thesis .
    qed
    then show ?thesis using scale_halving [OF _ _ step] False by simp
  qed
qed

text \<open>
  After \<open>scale\<close> the significand is below \<open>2^53\<close>, and at least \<open>2^52\<close> unless the counter
  ran out while doubling.
\<close>

lemma scale_normal:
  assumes "m < 2 ^ 53 * 2 ^ n" "scale n m s = (m', s')"
  shows "m' < 2 ^ 53 \<and> (2 ^ 52 \<le> m' \<or> s' = s / 2 ^ n)"
proof (cases "m < 2 ^ 52")
  case True
  then show ?thesis using scale_doubling [OF True assms(2)] by auto
next
  case False
  then show ?thesis using scale_halving [OF _ assms] by auto
qed

lemma scale_Ints:
  "m < 2 ^ 53 \<Longrightarrow> m \<in> \<int> \<Longrightarrow> scale n m s = (m', s') \<Longrightarrow> m' \<in> \<int>"
proof (induction n arbitrary: m s)
  case 0
  then show ?case by simp
next
  case (Suc n)
  show ?case
  proof (cases "m < 2 ^ 52")
    case True
    then have "scale n (2 * m) (s / 2) = (m', s')" using Suc.prems by simp
    moreover have "2 * m < 2 ^ 53" using True by simp
    moreover have "2 * m \<in> \<int>" using Suc.prems(2) by simp
    ultimately show ?thesis using Suc.IH by blast
  next
    case False
    then show ?thesis using Suc.prems by simp
  qed
qed

lemma roundTiesToEven_error: "\<bar>of_int (roundTiesToEven y) - y\<bar> \<le> 1 / 2"
  unfolding roundTiesToEven_def Let_def by (auto simp add: abs_le_iff)

lemma roundTiesToEven_of_int: "roundTiesToEven (of_int k) = k"
  by (simp add: roundTiesToEven_def)

text \<open>A number whose scaled significand is an integer is not changed by rounding.\<close>

lemma fl_fixed:
  assumes "scale fuel \<bar>x\<bar> 1 = (m', s')" "m' \<in> \<int>"
  shows "fl x = x"
proof (cases "x = 0")
  case True
  then show ?thesis by (simp add: fl_def)
next
  case False
  obtain z :: int where z: "m' = of_int z" using assms(2) by (auto elim: Ints_cases)
  have p: "m' * s' = \<bar>x\<bar>" using scale_product [OF assms(1)] by simp
  have "fl x = sgn x * of_int (roundTiesToEven m') * s'"
    using False assms(1) by (simp add: fl_def)
  also have "\<dots> = sgn x * (m' * s')" by (simp add: z roundTiesToEven_of_int)
  also have "\<dots> = x" unfolding p by (simp add: sgn_mult_abs)
  finally show ?thesis .
qed

text \<open>Every whole number below \<open>2^53\<close> in magnitude is a binary64 number.\<close>

lemma fl_of_int:
  assumes "\<bar>k\<bar> < 2 ^ 53"
  shows "fl (of_int k) = of_int k"
proof -
  obtain m' s' where sc: "scale fuel \<bar>of_int k :: real\<bar> 1 = (m', s')" by fastforce
  have "\<bar>of_int k :: real\<bar> = of_int \<bar>k\<bar>" by simp
  moreover have "(of_int \<bar>k\<bar> :: real) < 2 ^ 53"
    using assms by (metis of_int_less_iff of_int_numeral of_int_power)
  ultimately have "m' \<in> \<int>" using scale_Ints [OF _ _ sc] by simp
  then show ?thesis using fl_fixed [OF sc] by simp
qed


text \<open>Rounding moves a number by at most half a unit of its last significand bit.\<close>

lemma fl_error:
  assumes "\<bar>x\<bar> < 2 ^ 53 * 2 ^ fuel"
  shows "\<bar>fl x - x\<bar> \<le> \<bar>x\<bar> / 2 ^ 53 \<or> \<bar>fl x - x\<bar> \<le> 1 / 2 ^ (fuel + 1)"
proof (cases "x = 0")
  case True
  then show ?thesis by (simp add: fl_def)
next
  case False
  obtain m' s' where sc: "scale fuel \<bar>x\<bar> 1 = (m', s')" by fastforce
  have p: "m' * s' = \<bar>x\<bar>" using scale_product [OF sc] by simp
  have s: "0 < s'" using scale_positive [OF _ sc] by simp
  have n: "m' < 2 ^ 53 \<and> (2 ^ 52 \<le> m' \<or> s' = 1 / 2 ^ fuel)"
    using scale_normal [OF assms sc] .
  define r :: real where "r = of_int (roundTiesToEven m')"
  have r: "\<bar>r - m'\<bar> \<le> 1 / 2" unfolding r_def by (rule roundTiesToEven_error)
  have "fl x = sgn x * r * s'" using False sc by (simp add: fl_def r_def)
  moreover have "x = sgn x * (m' * s')" unfolding p by (simp add: sgn_mult_abs)
  ultimately have "fl x - x = sgn x * ((r - m') * s')" by (simp add: algebra_simps)
  then have "\<bar>fl x - x\<bar> = \<bar>r - m'\<bar> * s'"
    using False s by (simp add: abs_mult abs_sgn_eq)
  then have e: "\<bar>fl x - x\<bar> \<le> s' / 2"
    using r s by (simp add: mult_right_mono)
  from n show ?thesis
  proof (elim conjE disjE)
    assume m: "2 ^ 52 \<le> m'"
    have "s' * 2 ^ 52 \<le> s' * m'" using m s by (simp add: mult_left_mono)
    then have "s' * 2 ^ 52 \<le> \<bar>x\<bar>" using p by (simp add: mult.commute)
    then have "s' / 2 \<le> \<bar>x\<bar> / 2 ^ 53" by simp
    then show ?thesis using e by linarith
  next
    assume "s' = 1 / 2 ^ fuel"
    then have "s' / 2 = 1 / 2 ^ (fuel + 1)" by simp
    then show ?thesis using e by simp
  qed
qed

lemma fl_close:
  assumes "\<bar>y\<bar> \<le> 9007199254740991 / 10"
  shows "\<bar>fl y - y\<bar> < 1 / 10"
proof -
  have "(9007199254740991 / 10 :: real) < 2 ^ 53 * 1" by simp
  also have "\<dots> \<le> 2 ^ 53 * 2 ^ fuel" by (intro mult_left_mono) simp_all
  finally have "\<bar>y\<bar> < 2 ^ 53 * 2 ^ fuel" using assms by linarith
  then have "\<bar>fl y - y\<bar> \<le> \<bar>y\<bar> / 2 ^ 53 \<or> \<bar>fl y - y\<bar> \<le> 1 / 2 ^ (fuel + 1)"
    by (rule fl_error)
  moreover have "\<bar>y\<bar> / 2 ^ 53 < 1 / 10" using assms by simp
  moreover have "(1::real) / 2 ^ (fuel + 1) < 1 / 10"
  proof -
    have "(2::real) ^ 4 \<le> 2 ^ (fuel + 1)"
      by (rule power_increasing) (simp_all add: fuel_def)
    then have "(1::real) / 2 ^ (fuel + 1) \<le> 1 / 2 ^ 4"
      by (simp add: frac_le)
    then show ?thesis by simp
  qed
  ultimately show ?thesis by linarith
qed

lemma Math_round_of_int: "Math_round (of_int k) = k"
  unfolding Math_round_def by linarith

text \<open>
  Up to \<open>2^53 - 1\<close>, the largest safe integer, the rounded quotient by 10 is an integer
  of at most 15 digits.
\<close>

lemma Math_round_fl_bound:
  assumes "\<bar>x\<bar> \<le> 9007199254740991"
  shows "\<bar>Math_round (fl (x / 10))\<bar> \<le> 900719925474099"
proof -
  define q where "q = fl (x / 10)"
  have "\<bar>x / 10\<bar> \<le> 9007199254740991 / 10" using assms by simp
  then have c: "\<bar>q - x / 10\<bar> < 1 / 10" unfolding q_def by (rule fl_close)
  have u: "q + 1 / 2 < 900719925474100" using c assms by linarith
  have l: "- 900719925474100 < q + 1 / 2 - 1" using c assms by linarith
  have "(of_int \<lfloor>q + 1 / 2\<rfloor> :: real) < of_int 900719925474100"
    using u by simp
  then have 1: "\<lfloor>q + 1 / 2\<rfloor> < 900719925474100" by (simp only: of_int_less_iff)
  have "(of_int (- 900719925474100) :: real) < of_int \<lfloor>q + 1 / 2\<rfloor>"
    using l by simp linarith
  then have 2: "- 900719925474100 < \<lfloor>q + 1 / 2\<rfloor>" by (simp only: of_int_less_iff)
  show ?thesis unfolding Math_round_def q_def [symmetric] using 1 2 by linarith
qed

lemma roundToStep_times_10:
  assumes "\<bar>x\<bar> \<le> 9007199254740991"
  shows "roundToStep x = 10 * of_int (Math_round (fl (x / 10)))"
proof -
  define n where "n = Math_round (fl (x / 10))"
  have "\<bar>n\<bar> \<le> 900719925474099" unfolding n_def by (rule Math_round_fl_bound [OF assms])
  then have "\<bar>n * 10\<bar> < 2 ^ 53" by simp
  then have "fl (of_int (n * 10)) = of_int (n * 10)" by (rule fl_of_int)
  then show ?thesis by (simp add: roundToStep_def n_def)
qed

lemma roundToStep_twice:
  assumes "\<bar>x\<bar> \<le> 9007199254740991"
  shows "roundToStep (roundToStep x) = roundToStep x"
proof -
  define n where "n = Math_round (fl (x / 10))"
  have n: "\<bar>n\<bar> \<le> 900719925474099" unfolding n_def by (rule Math_round_fl_bound [OF assms])
  have r: "roundToStep x = of_int (n * 10)"
    using roundToStep_times_10 [OF assms] by (simp add: n_def)
  have a: "fl (of_int n) = of_int n" using n by (intro fl_of_int) simp
  have b: "fl (of_int (n * 10)) = of_int (n * 10)" using n by (intro fl_of_int) simp
  have "roundToStep (of_int (n * 10)) = fl (of_int (Math_round (fl (of_int n))) * 10)"
    by (simp add: roundToStep_def)
  also have "\<dots> = of_int (n * 10)" using b by (simp add: a Math_round_of_int)
  finally show ?thesis unfolding r .
qed








text \<open>
  Claim C4 as stated, for every \<open>x \<ge> 0\<close>, fails above the safe integers: the amount
  36028797018963976 (\<open>2^55 + 8\<close>) is rounded to 36028797018963984, and that in turn to
  36028797018963992.
\<close>

theorem roundToStep_twice_counterexample:
  "roundToStep 36028797018963976 = 36028797018963984 \<and>
   roundToStep (roundToStep 36028797018963976) = 36028797018963992 \<and>
   roundToStep (roundToStep 36028797018963976) \<noteq> roundToStep 36028797018963976"
  by (simp add: roundToStep_def Math_round_def fl_eval)

text \<open>
  Claim C4, amended: for every \<open>x\<close> with \<open>0 \<le> x \<le> 9007199254740991\<close> (\<open>2^53 - 1\<close>),
  rounding to the step twice gives the same as rounding once:
  \<open>roundToStep (roundToStep x) = roundToStep x\<close>.
\<close>

theorem roundToStep_idempotent:
  "0 \<le> x \<Longrightarrow> x \<le> 9007199254740991 \<Longrightarrow> roundToStep (roundToStep x) = roundToStep x"
  by (rule roundToStep_twice) simp

theorem roundToStep_idempotent_witness:
  "(0::real) \<le> 123 \<and> (123::real) \<le> 9007199254740991 \<and> roundToStep 123 = 120 \<and>
   roundToStep (roundToStep 123) = roundToStep 123"
  using roundToStep_idempotent [of 123] by (simp add: roundToStep_def Math_round_def fl_eval)

text \<open>
  Claim C10: when the field's text is empty, does not parse to a number, or parses to a
  negative number, \<open>handleAmountBlur\<close> leaves the \<open>amount\<close> state as it was: nothing is
  rounded and nothing is clamped.
\<close>

theorem handleAmountBlur_unchanged:
  "value = [] \<or> parseFloat value = None \<or> (\<exists>num. parseFloat value = Some num \<and> num < 0)
   \<Longrightarrow> handleAmountBlur parseFloat toString amount value = amount"
  by (auto simp add: handleAmountBlur_def)

theorem handleAmountBlur_unchanged_witness:
  "(\<exists>num. (\<lambda>s. if s = ''-5'' then Some (-5) else None) ''-5'' = Some num \<and> num < (0::real)) \<and>
   handleAmountBlur (\<lambda>s. if s = ''-5'' then Some (-5) else None) (\<lambda>r. ''n'') ''-5'' ''-5''
     = ''-5'' \<and>
   handleAmountBlur (\<lambda>s. if s = ''-5'' then Some (-5) else None) (\<lambda>r. ''n'') ''abc'' ''abc''
     = ''abc'' \<and>
   handleAmountBlur (\<lambda>s. if s = ''-5'' then Some (-5) else None) (\<lambda>r. ''n'') ''7'' []
     = ''7''"
  using
    handleAmountBlur_unchanged [of "''-5''" "\<lambda>s. if s = ''-5'' then Some (-5) else None"
      "\<lambda>r. ''n''" "''-5''"]
    handleAmountBlur_unchanged [of "''abc''" "\<lambda>s. if s = ''-5'' then Some (-5) else None"
      "\<lambda>r. ''n''" "''abc''"]
    handleAmountBlur_unchanged [of "[]" "\<lambda>s. if s = ''-5'' then Some (-5) else None"
      "\<lambda>r. ''n''" "''7''"]
  by simp

section \<open>The date filter\<close>

text \<open>
  Claim C5: for every selection (a date or none) and every clicked date,
  \<open>handleDateClick\<close> gives no selection when the clicked date is the selected calendar
  day (same year, month and day of the month) and the clicked date otherwise; so clicking
  the same date twice from the empty selection gives the empty selection again.
\<close>

theorem handleDateClick_toggle:
  "handleDateClick cur clicked =
     (if (\<exists>c. cur = Some c \<and> sameCalendarDay clicked c) then None else Some clicked) \<and>
   handleDateClick (handleDateClick None d) d = None"
  by (cases cur) (simp_all add: handleDateClick_def isDateSelected_def sameCalendarDay_def)

section \<open>Deleting a category\<close>

text \<open>
  Claim C6: when at most one category is left, \<open>deleteCategory\<close> raises the alert that at
  least one category is required and changes nothing, whatever the name; the list of
  categories changes only when it has two or more entries (and the user confirms), and
  then the named category is filtered out.
\<close>

theorem deleteCategory_guard:
  "(length (categories s) \<le> 1 \<longrightarrow>
      deleteCategory confirmed name s = (Some AtLeastOneCategoryRequired, s)) \<and>
   (categories (snd (deleteCategory confirmed name s)) \<noteq> categories s \<longrightarrow>
      2 \<le> length (categories s) \<and> confirmed \<and>
      fst (deleteCategory confirmed name s) = None \<and>
      categories (snd (deleteCategory confirmed name s)) =
        filter (\<lambda>cat. cat \<noteq> name) (categories s))"
  by (simp add: deleteCategory_def Let_def)

theorem deleteCategory_guard_witness:
  "length (categories \<lparr>categories = [''food''], category = ''food''\<rparr>) \<le> 1 \<and>
   deleteCategory True ''food'' \<lparr>categories = [''food''], category = ''food''\<rparr> =
     (Some AtLeastOneCategoryRequired, \<lparr>categories = [''food''], category = ''food''\<rparr>) \<and>
   categories (snd (deleteCategory True ''food''
       \<lparr>categories = [''food'', ''pay''], category = ''food''\<rparr>)) \<noteq> [''food'', ''pay''] \<and>
   deleteCategory True ''food'' \<lparr>categories = [''food'', ''pay''], category = ''food''\<rparr> =
     (None, \<lparr>categories = [''pay''], category = ''pay''\<rparr>)"
  using
    deleteCategory_guard [of "\<lparr>categories = [''food''], category = ''food''\<rparr>" True "''food''"]
    deleteCategory_guard [of "\<lparr>categories = [''food'', ''pay''], category = ''food''\<rparr>" True
      "''food''"]
  by (simp add: deleteCategory_def)

section \<open>Comparison with the previous month\<close>

lemma percentChange_guarded:
  "percentChange cur prev =
     (if 0 < prev then Percent ((cur / prev - 1) * 100) else ZeroText)"
  by (simp add: percentChange_def divide_js_def)

text \<open>
  Claim C7: for every pair of monthly summaries, the percentage of the income and of the
  expense line is computed only when the previous value is above zero: the line is left
  out exactly when the previous value is zero or less, a line that is shown carries the
  quotient by a positive previous value, the percentage is never the result of a division
  by zero, and for a previous value of zero it is the text 0.
\<close>

theorem delta_percent_guarded:
  "(incomeDeltaLine cur prev = None \<longleftrightarrow> income prev \<le> 0) \<and>
   (expenseDeltaLine cur prev = None \<longleftrightarrow> expense prev \<le> 0) \<and>
   (\<forall>l. incomeDeltaLine cur prev = Some l \<longrightarrow>
        0 < income prev \<and>
        percent l = Some (Percent ((income cur / income prev - 1) * 100))) \<and>
   (\<forall>l. expenseDeltaLine cur prev = Some l \<longrightarrow>
        0 < expense prev \<and>
        percent l = Some (Percent ((expense cur / expense prev - 1) * 100))) \<and>
   (\<forall>l. balanceDeltaLine cur prev = Some l \<longrightarrow> percent l = None) \<and>
   percentChange a b \<noteq> PercentNaN \<and>
   (b = 0 \<longrightarrow> percentChange a b = ZeroText)"
  by (auto simp add: incomeDeltaLine_def expenseDeltaLine_def balanceDeltaLine_def
        percentChange_guarded)

theorem delta_percent_guarded_witness:
  "income \<lparr>income = 200, expense = 0, balance = 200\<rparr> = 200 \<and>
   incomeDeltaLine \<lparr>income = 300, expense = 50, balance = 250\<rparr>
                   \<lparr>income = 200, expense = 0, balance = 200\<rparr> =
     Some \<lparr>plusSign = True, delta = 100, percent = Some (Percent 50)\<rparr> \<and>
   expenseDeltaLine \<lparr>income = 300, expense = 50, balance = 250\<rparr>
                    \<lparr>income = 200, expense = 0, balance = 200\<rparr> = None \<and>
   expenseDeltaLine \<lparr>income = 300, expense = 50, balance = 250\<rparr>
                    \<lparr>income = 0, expense = 100, balance = - 100\<rparr> =
     Some \<lparr>plusSign = False, delta = - 50, percent = Some (Percent (- 50))\<rparr> \<and>
   incomeDeltaLine \<lparr>income = 300, expense = 50, balance = 250\<rparr>
                   \<lparr>income = 0, expense = 100, balance = - 100\<rparr> = None \<and>
   balanceDeltaLine \<lparr>income = 300, expense = 50, balance = 250\<rparr>
                    \<lparr>income = 200, expense = 0, balance = 200\<rparr> =
     Some \<lparr>plusSign = True, delta = 50, percent = None\<rparr> \<and>
   percentChange 50 0 = ZeroText"
  using
    delta_percent_guarded [of "\<lparr>income = 300, expense = 50, balance = 250\<rparr>"
      "\<lparr>income = 200, expense = 0, balance = 200\<rparr>" 50 0]
    delta_percent_guarded [of "\<lparr>income = 300, expense = 50, balance = 250\<rparr>"
      "\<lparr>income = 0, expense = 100, balance = - 100\<rparr>" 50 0]
  by (simp add: incomeDeltaLine_def expenseDeltaLine_def balanceDeltaLine_def)

section \<open>Sums over the transaction list\<close>

text \<open>
  A rounded sum of whole numbers is exact as long as the magnitudes add up to less than
  \<open>2^53\<close>.
\<close>

lemma foldl_fl_exact:
  assumes "a \<in> \<int>" "\<forall>t\<in>set xs. f t \<in> \<int>"
    and "\<bar>a\<bar> + sum_list (map (\<lambda>t. \<bar>f t\<bar>) xs) < 2 ^ 53"
  shows "foldl (\<lambda>sum t. fl (sum + f t)) a xs = a + sum_list (map f xs)"
  using assms
proof (induction xs arbitrary: a)
  case Nil
  then show ?case by simp
next
  case (Cons x xs)
  have nn: "0 \<le> sum_list (map (\<lambda>t. \<bar>f t\<bar>) xs)" by (rule sum_list_nonneg) auto
  have "a + f x \<in> \<int>" using Cons.prems(1,2) by simp
  then obtain z :: int where z: "a + f x = of_int z" by (auto elim: Ints_cases)
  have b: "\<bar>a + f x\<bar> + sum_list (map (\<lambda>t. \<bar>f t\<bar>) xs) < 2 ^ 53"
    using Cons.prems(3) by simp
  then have "\<bar>of_int z :: real\<bar> < 2 ^ 53" using nn unfolding z by linarith
  then have "(of_int \<bar>z\<bar> :: real) < of_int (2 ^ 53)" by simp
  then have "\<bar>z\<bar> < 2 ^ 53" by (simp only: of_int_less_iff)
  then have ex: "fl (a + f x) = a + f x" unfolding z by (rule fl_of_int)
  have "foldl (\<lambda>sum t. fl (sum + f t)) (a + f x) xs = a + f x + sum_list (map f xs)"
    using Cons.prems(2) b by (intro Cons.IH) (simp_all add: z)
  then show ?case by (simp add: ex)
qed

lemma sum_abs_filter_le:
  "sum_list (map (\<lambda>t. \<bar>f t\<bar>) (filter P xs)) \<le> sum_list (map (\<lambda>t. \<bar>f t :: real\<bar>) xs)"
  by (induction xs) auto

lemma reduce_filter_exact:
  assumes "\<forall>t\<in>set xs. f t \<in> \<int>" "sum_list (map (\<lambda>t. \<bar>f t\<bar>) xs) < 2 ^ 53"
  shows "foldl (\<lambda>sum t. fl (sum + f t)) 0 (filter P xs) =
           sum_mset (image_mset f (filter_mset P (mset xs)))"
proof -
  have "\<bar>0 :: real\<bar> + sum_list (map (\<lambda>t. \<bar>f t\<bar>) (filter P xs)) < 2 ^ 53"
    using sum_abs_filter_le [of f P xs] assms(2) by simp
  then have "foldl (\<lambda>sum t. fl (sum + f t)) 0 (filter P xs) =
               0 + sum_list (map f (filter P xs))"
    using assms(1) by (intro foldl_fl_exact) simp_all
  also have "\<dots> = sum_mset (mset (map f (filter P xs)))"
    by (simp only: sum_mset_sum_list add_0)
  also have "\<dots> = sum_mset (image_mset f (filter_mset P (mset xs)))"
    by simp
  finally show ?thesis .
qed

lemma sum_list_mset_cong:
  "mset xs = mset ys \<Longrightarrow> sum_list (map g xs) = sum_list (map g ys)" for g :: "'a \<Rightarrow> real"
proof -
  assume "mset xs = mset ys"
  then have "sum_mset (mset (map g xs)) = sum_mset (mset (map g ys))" by simp
  then show ?thesis by (simp only: sum_mset_sum_list)
qed

text \<open>
  Under the bound each sum is the exact sum over the entries of the list, whatever their
  order.
\<close>

lemma calculateSummary_exact:
  assumes "\<forall>t\<in>set ts. t_amount t \<in> \<int>"
    and "sum_list (map (\<lambda>t. \<bar>t_amount t\<bar>) ts) < 2 ^ 53"
  shows "calculateSummary ts =
     \<lparr>income = sum_mset (image_mset t_amount (filter_mset (\<lambda>t. t_type t = Income) (mset ts))),
      expense = sum_mset (image_mset t_amount (filter_mset (\<lambda>t. t_type t = Expense) (mset ts))),
      balance = fl (sum_mset (image_mset t_amount (filter_mset (\<lambda>t. t_type t = Income) (mset ts)))
                  - sum_mset (image_mset t_amount
                      (filter_mset (\<lambda>t. t_type t = Expense) (mset ts))))\<rparr>"
  unfolding calculateSummary_def Let_def
  by (simp only: reduce_filter_exact [OF assms])

lemma getTotalForDate_exact:
  assumes "\<forall>t\<in>set ts. t_amount t \<in> \<int>"
    and "sum_list (map (\<lambda>t. \<bar>t_amount t\<bar>) ts) < 2 ^ 53"
  shows "getTotalForDate ts d =
     sum_mset (image_mset (\<lambda>t. if t_type t = Income then t_amount t else - t_amount t)
       (filter_mset (\<lambda>t. getFullYear (created_at t) = getFullYear d \<and>
                         getMonth (created_at t) = getMonth d \<and>
                         getDate (created_at t) = getDate d) (mset ts)))"
proof -
  have a: "\<forall>t\<in>set ts. (if t_type t = Income then t_amount t else - t_amount t) \<in> \<int>"
    using assms(1) by simp
  have e: "(\<lambda>t. \<bar>if t_type t = Income then t_amount t else - t_amount t\<bar>) =
           (\<lambda>t. \<bar>t_amount t\<bar>)"
    by auto
  have b: "sum_list (map (\<lambda>t. \<bar>if t_type t = Income then t_amount t else - t_amount t\<bar>) ts)
             < 2 ^ 53"
    using assms(2) by (simp only: e)
  show ?thesis
    unfolding getTotalForDate_def getTransactionsForDate_def
    by (rule reduce_filter_exact [OF a b])
qed

text \<open>
  Claim C8 as stated, for every transaction list, fails on amounts that are not whole
  numbers and on sums beyond the safe integers. The \<open>amount\<close> column holds two decimals;
  three incomes of 0.1, 0.2 and 0.3 (the binary64 numbers nearest to them) sum to
  0.6000000000000001 in this order and to 0.6 in the reverse order. Three incomes of
  9007199254740992, 1 and 1 sum to 9007199254740992 in this order and to
  9007199254740994 in the reverse order.
\<close>

theorem aggregation_order_counterexample:
  "mset [\<lparr>t_id = 1, t_amount = fl (1 / 10), t_description = ''a'', t_category = ''c'',
           t_type = Income, created_at = 0\<rparr>,
         \<lparr>t_id = 2, t_amount = fl (2 / 10), t_description = ''a'', t_category = ''c'',
           t_type = Income, created_at = 0\<rparr>,
         \<lparr>t_id = 3, t_amount = fl (3 / 10), t_description = ''a'', t_category = ''c'',
           t_type = Income, created_at = 0\<rparr>] =
   mset [\<lparr>t_id = 3, t_amount = fl (3 / 10), t_description = ''a'', t_category = ''c'',
           t_type = Income, created_at = 0\<rparr>,
         \<lparr>t_id = 2, t_amount = fl (2 / 10), t_description = ''a'', t_category = ''c'',
           t_type = Income, created_at = 0\<rparr>,
         \<lparr>t_id = 1, t_amount = fl (1 / 10), t_description = ''a'', t_category = ''c'',
           t_type = Income, created_at = 0\<rparr>] \<and>
   income (calculateSummary
        [\<lparr>t_id = 1, t_amount = fl (1 / 10), t_description = ''a'', t_category = ''c'',
           t_type = Income, created_at = 0\<rparr>,
         \<lparr>t_id = 2, t_amount = fl (2 / 10), t_description = ''a'', t_category = ''c'',
           t_type = Income, created_at = 0\<rparr>,
         \<lparr>t_id = 3, t_amount = fl (3 / 10), t_description = ''a'', t_category = ''c'',
           t_type = Income, created_at = 0\<rparr>]) = 1351079888211149 / 2251799813685248 \<and>
   income (calculateSummary
        [\<lparr>t_id = 3, t_amount = fl (3 / 10), t_description = ''a'', t_category = ''c'',
           t_type = Income, created_at = 0\<rparr>,
         \<lparr>t_id = 2, t_amount = fl (2 / 10), t_description = ''a'', t_category = ''c'',
           t_type = Income, created_at = 0\<rparr>,
         \<lparr>t_id = 1, t_amount = fl (1 / 10), t_description = ''a'', t_category = ''c'',
           t_type = Income, created_at = 0\<rparr>]) = 5404319552844595 / 9007199254740992 \<and>
   getTotalForDate
        [\<lparr>t_id = 1, t_amount = fl (1 / 10), t_description = ''a'', t_category = ''c'',
           t_type = Income, created_at = 0\<rparr>,
         \<lparr>t_id = 2, t_amount = fl (2 / 10), t_description = ''a'', t_category = ''c'',
           t_type = Income, created_at = 0\<rparr>,
         \<lparr>t_id = 3, t_amount = fl (3 / 10), t_description = ''a'', t_category = ''c'',
           t_type = Income, created_at = 0\<rparr>] 0 = 1351079888211149 / 2251799813685248 \<and>
   getTotalForDate
        [\<lparr>t_id = 3, t_amount = fl (3 / 10), t_description = ''a'', t_category = ''c'',
           t_type = Income, created_at = 0\<rparr>,
         \<lparr>t_id = 2, t_amount = fl (2 / 10), t_description = ''a'', t_category = ''c'',
           t_type = Income, created_at = 0\<rparr>,
         \<lparr>t_id = 1, t_amount = fl (1 / 10), t_description = ''a'', t_category = ''c'',
           t_type = Income, created_at = 0\<rparr>] 0 = 5404319552844595 / 9007199254740992 \<and>
   income (calculateSummary
        [\<lparr>t_id = 1, t_amount = 9007199254740992, t_description = ''a'', t_category = ''c'',
           t_type = Income, created_at = 0\<rparr>,
         \<lparr>t_id = 2, t_amount = 1, t_description = ''a'', t_category = ''c'',
           t_type = Income, created_at = 0\<rparr>,
         \<lparr>t_id = 3, t_amount = 1, t_description = ''a'', t_category = ''c'',
           t_type = Income, created_at = 0\<rparr>]) = 9007199254740992 \<and>
   income (calculateSummary
        [\<lparr>t_id = 3, t_amount = 1, t_description = ''a'', t_category = ''c'',
           t_type = Income, created_at = 0\<rparr>,
         \<lparr>t_id = 2, t_amount = 1, t_description = ''a'', t_category = ''c'',
           t_type = Income, created_at = 0\<rparr>,
         \<lparr>t_id = 1, t_amount = 9007199254740992, t_description = ''a'', t_category = ''c'',
           t_type = Income, created_at = 0\<rparr>]) = 9007199254740994"
  by (simp add: calculateSummary_def getTotalForDate_def getTransactionsForDate_def
      add_mset_commute fl_eval)

text \<open>
  Claim C8, amended: for transaction lists whose amounts are whole numbers with
  magnitudes adding up to at most 9007199254740991 (\<open>2^53 - 1\<close>), the sums do not depend
  on the order of the list. Two such lists with the same entries, each as often in one
  as in the other (every permutation of a list is such a list), have the same
  \<open>calculateSummary\<close> and the same \<open>getTotalForDate\<close> on every date.
\<close>

theorem aggregation_order_independent:
  assumes "mset ts = mset ts'"
    and "\<forall>t\<in>set ts. t_amount t \<in> \<int>"
    and "sum_list (map (\<lambda>t. \<bar>t_amount t\<bar>) ts) \<le> 9007199254740991"
  shows "calculateSummary ts = calculateSummary ts' \<and>
         (\<forall>d. getTotalForDate ts d = getTotalForDate ts' d)"
proof -
  have w: "\<forall>t\<in>set ts. t_amount t \<in> \<int>" by (rule assms(2))
  have b: "sum_list (map (\<lambda>t. \<bar>t_amount t\<bar>) ts) < 2 ^ 53" using assms(3) by simp
  have w': "\<forall>t\<in>set ts'. t_amount t \<in> \<int>"
    using assms(2) mset_eq_setD [OF assms(1)] by simp
  have b': "sum_list (map (\<lambda>t. \<bar>t_amount t\<bar>) ts') < 2 ^ 53"
    using b sum_list_mset_cong [OF assms(1), of "\<lambda>t. \<bar>t_amount t\<bar>"] by simp
  show ?thesis
    by (simp add: calculateSummary_exact [OF w b] calculateSummary_exact [OF w' b']
        getTotalForDate_exact [OF w b] getTotalForDate_exact [OF w' b'] assms(1))
qed

theorem aggregation_order_independent_witness:
  "mset [\<lparr>t_id = 1, t_amount = 10000, t_description = ''pay'', t_category = ''pay'',
           t_type = Income, created_at = 0\<rparr>,
         \<lparr>t_id = 2, t_amount = 5000, t_description = ''gift'', t_category = ''etc'',
           t_type = Income, created_at = 0\<rparr>,
         \<lparr>t_id = 3, t_amount = 4000, t_description = ''rice'', t_category = ''food'',
           t_type = Expense, created_at = 0\<rparr>,
         \<lparr>t_id = 4, t_amount = 1500, t_description = ''bus'', t_category = ''ride'',
           t_type = Expense, created_at = 0\<rparr>] =
   mset [\<lparr>t_id = 4, t_amount = 1500, t_description = ''bus'', t_category = ''ride'',
           t_type = Expense, created_at = 0\<rparr>,
         \<lparr>t_id = 2, t_amount = 5000, t_description = ''gift'', t_category = ''etc'',
           t_type = Income, created_at = 0\<rparr>,
         \<lparr>t_id = 3, t_amount = 4000, t_description = ''rice'', t_category = ''food'',
           t_type = Expense, created_at = 0\<rparr>,
         \<lparr>t_id = 1, t_amount = 10000, t_description = ''pay'', t_category = ''pay'',
           t_type = Income, created_at = 0\<rparr>] \<and>
   calculateSummary
        [\<lparr>t_id = 1, t_amount = 10000, t_description = ''pay'', t_category = ''pay'',
           t_type = Income, created_at = 0\<rparr>,
         \<lparr>t_id = 2, t_amount = 5000, t_description = ''gift'', t_category = ''etc'',
           t_type = Income, created_at = 0\<rparr>,
         \<lparr>t_id = 3, t_amount = 4000, t_description = ''rice'', t_category = ''food'',
           t_type = Expense, created_at = 0\<rparr>,
         \<lparr>t_id = 4, t_amount = 1500, t_description = ''bus'', t_category = ''ride'',
           t_type = Expense, created_at = 0\<rparr>] =
   calculateSummary
        [\<lparr>t_id = 4, t_amount = 1500, t_description = ''bus'', t_category = ''ride'',
           t_type = Expense, created_at = 0\<rparr>,
         \<lparr>t_id = 2, t_amount = 5000, t_description = ''gift'', t_category = ''etc'',
           t_type = Income, created_at = 0\<rparr>,
         \<lparr>t_id = 3, t_amount = 4000, t_description = ''rice'', t_category = ''food'',
           t_type = Expense, created_at = 0\<rparr>,
         \<lparr>t_id = 1, t_amount = 10000, t_description = ''pay'', t_category = ''pay'',
           t_type = Income, created_at = 0\<rparr>] \<and>
   calculateSummary
        [\<lparr>t_id = 4, t_amount = 1500, t_description = ''bus'', t_category = ''ride'',
           t_type = Expense, created_at = 0\<rparr>,
         \<lparr>t_id = 2, t_amount = 5000, t_description = ''gift'', t_category = ''etc'',
           t_type = Income, created_at = 0\<rparr>,
         \<lparr>t_id = 3, t_amount = 4000, t_description = ''rice'', t_category = ''food'',
           t_type = Expense, created_at = 0\<rparr>,
         \<lparr>t_id = 1, t_amount = 10000, t_description = ''pay'', t_category = ''pay'',
           t_type = Income, created_at = 0\<rparr>] =
     \<lparr>income = 15000, expense = 5500, balance = 9500\<rparr> \<and>
   getTotalForDate
        [\<lparr>t_id = 1, t_amount = 10000, t_description = ''pay'', t_category = ''pay'',
           t_type = Income, created_at = 0\<rparr>,
         \<lparr>t_id = 2, t_amount = 5000, t_description = ''gift'', t_category = ''etc'',
           t_type = Income, created_at = 0\<rparr>,
         \<lparr>t_id = 3, t_amount = 4000, t_description = ''rice'', t_category = ''food'',
           t_type = Expense, created_at = 0\<rparr>,
         \<lparr>t_id = 4, t_amount = 1500, t_description = ''bus'', t_category = ''ride'',
           t_type = Expense, created_at = 0\<rparr>] 0 =
   getTotalForDate
        [\<lparr>t_id = 4, t_amount = 1500, t_description = ''bus'', t_category = ''ride'',
           t_type = Expense, created_at = 0\<rparr>,
         \<lparr>t_id = 2, t_amount = 5000, t_description = ''gift'', t_category = ''etc'',
           t_type = Income, created_at = 0\<rparr>,
         \<lparr>t_id = 3, t_amount = 4000, t_description = ''rice'', t_category = ''food'',
           t_type = Expense, created_at = 0\<rparr>,
         \<lparr>t_id = 1, t_amount = 10000, t_description = ''pay'', t_category = ''pay'',
           t_type = Income, created_at = 0\<rparr>] 0 \<and>
   getTotalForDate
        [\<lparr>t_id = 4, t_amount = 1500, t_description = ''bus'', t_category = ''ride'',
           t_type = Expense, created_at = 0\<rparr>,
         \<lparr>t_id = 2, t_amount = 5000, t_description = ''gift'', t_category = ''etc'',
           t_type = Income, created_at = 0\<rparr>,
         \<lparr>t_id = 3, t_amount = 4000, t_description = ''rice'', t_category = ''food'',
           t_type = Expense, created_at = 0\<rparr>,
         \<lparr>t_id = 1, t_amount = 10000, t_description = ''pay'', t_category = ''pay'',
           t_type = Income, created_at = 0\<rparr>] 0 = 9500"
proof -
  let ?a = "\<lparr>t_id = 1, t_amount = 10000, t_description = ''pay'', t_category = ''pay'',
           t_type = Income, created_at = 0\<rparr>"
  let ?b = "\<lparr>t_id = 2, t_amount = 5000, t_description = ''gift'', t_category = ''etc'',
           t_type = Income, created_at = 0\<rparr>"
  let ?c = "\<lparr>t_id = 3, t_amount = 4000, t_description = ''rice'', t_category = ''food'',
           t_type = Expense, created_at = 0\<rparr>"
  let ?d = "\<lparr>t_id = 4, t_amount = 1500, t_description = ''bus'', t_category = ''ride'',
           t_type = Expense, created_at = 0\<rparr>"
  have p: "mset [?a, ?b, ?c, ?d] = mset [?d, ?b, ?c, ?a]" by (simp add: add_mset_commute)
  have w: "\<forall>t\<in>set [?a, ?b, ?c, ?d]. t_amount t \<in> \<int>" by simp
  have b: "sum_list (map (\<lambda>t. \<bar>t_amount t\<bar>) [?a, ?b, ?c, ?d]) \<le> 9007199254740991" by simp
  have v: "calculateSummary [?d, ?b, ?c, ?a] = \<lparr>income = 15000, expense = 5500, balance = 9500\<rparr>"
    by (simp add: calculateSummary_def fl_eval)
  have t: "getTotalForDate [?d, ?b, ?c, ?a] 0 = 9500"
    by (simp add: getTotalForDate_def getTransactionsForDate_def fl_eval)
  show ?thesis
    using p v t aggregation_order_independent [OF p w b] by simp
qed

end
